theory Spec2Isabelle
  imports Main "HOL-Library.Word"
begin

text \<open>
  A shallow embedding of the load balancer's pool, its round-robin policy, the proxy error
  handler and the admin handler for backends, with the properties of the specification
  that concern them. The definitions follow the Go sources function by function; the
  theorems come after all definitions.
\<close>

section \<open>Backend record and its connection counter (package pool)\<close>

text \<open>
  Go's \<open>int32\<close> and \<open>uint64\<close> are words: \<open>+\<close> wraps, \<open>sint\<close> reads the two's
  complement value of an \<open>int32\<close>, \<open>unat\<close> the value of a \<open>uint64\<close>.
\<close>

type_synonym int32 = "32 word"
type_synonym uint64 = "64 word"

text \<open>
  The two reverse proxies a backend can carry. \<open>AddBackend\<close> builds one whose
  \<open>ErrorHandler\<close> is its closure over the pool; \<open>UpdateBackends\<close> builds one with
  \<open>httputil.NewSingleHostReverseProxy\<close>, which has no \<open>ErrorHandler\<close>, so the standard
  proxy answers a transport error itself, with 502.
\<close>

datatype proxy = ErrorHandlerProxy | SingleHostProxy

text \<open>
  \<open>type Backend struct\<close>. The field \<open>URL\<close> holds \<open>URL.String()\<close>, the only form in
  which the pool ever compares URLs. \<open>Weight\<close> and \<open>CurrentWeight\<close> are only stored and
  copied. \<open>ReverseProxy\<close> tells which of the two proxies the backend carries; a proxy
  has no other state here, so \<open>GetNextProxy\<close> returns the backend whose proxy it is.
  \<open>Host\<close> and the mutex are left out.
\<close>

record Backend =
  URL :: string
  Alive :: bool
  Weight :: int
  CurrentWeight :: int
  ReverseProxy :: proxy
  ConnectionCount :: int32
  MaxConnections :: int32

text \<open>The primitives of \<open>sync/atomic\<close> on one \<open>int32\<close> cell, as functions of the cell.\<close>

definition LoadInt32 :: "int32 \<Rightarrow> int32" where
  "LoadInt32 v = v"

definition AddInt32 :: "int32 \<Rightarrow> int32 \<Rightarrow> int32" where
  "AddInt32 v delta = v + delta"

definition CompareAndSwapInt32 :: "int32 \<Rightarrow> int32 \<Rightarrow> int32 \<Rightarrow> bool \<times> int32" where
  "CompareAndSwapInt32 v old new = (if v = old then (True, new) else (False, v))"

text \<open>
  \<open>func (b *Backend) IncrementConnections() bool\<close>, run with no other goroutine in between:
  the \<open>for\<close> loop is the recursion, taken only when the compare-and-swap fails.
\<close>

function IncrementConnections :: "Backend \<Rightarrow> bool \<times> Backend" where
  "IncrementConnections b =
     (let current = LoadInt32 (ConnectionCount b) in
      if sint (MaxConnections b) \<le> sint current then (False, b)
      else if fst (CompareAndSwapInt32 (ConnectionCount b) current (current + 1))
           then (True, b\<lparr>ConnectionCount :=
                   snd (CompareAndSwapInt32 (ConnectionCount b) current (current + 1))\<rparr>)
           else IncrementConnections b)"
  by pat_completeness auto
termination
  by (relation "{}") (simp_all add: LoadInt32_def CompareAndSwapInt32_def)

text \<open>\<open>func (b *Backend) DecrementConnections()\<close>: an unconditional atomic add of \<open>-1\<close>.\<close>

definition DecrementConnections :: "Backend \<Rightarrow> Backend" where
  "DecrementConnections b = b\<lparr>ConnectionCount := AddInt32 (ConnectionCount b) (- 1)\<rparr>"




section \<open>Server pool (package pool)\<close>

text \<open>
  \<open>type ServerPool struct\<close>. The slice \<open>backends\<close> holds pointers, and
  \<open>UpdateBackends\<close> writes through them, so the pool carries the store of the
  \<open>Backend\<close> objects it points into: \<open>store\<close> maps an address to the object there and
  \<open>nextAddr\<close> is the address the next \<open>&Backend{...}\<close> gets. The \<open>algorithm\<close> field and the
  lock are left out: every function below runs from its lock to its unlock in one go.
\<close>

record ServerPool =
  store :: "nat \<Rightarrow> Backend"
  nextAddr :: nat
  backends :: "nat list"
  current :: uint64
  maxConnections :: int32

text \<open>\<open>config.BackendConfig\<close>, without the health-check block the pool never reads.\<close>

record BackendConfig =
  cfgURL :: string
  cfgWeight :: int
  cfgMaxConnections :: int32

datatype error = ParseError | BackendNotFound

text \<open>
  The loop \<open>for _, b := range s.backends { if b.URL.String() == url.String() { ...; break } }\<close>
  of \<open>MarkBackendStatus\<close> and \<open>UpdateBackends\<close>: the first pointer whose object has the URL.
\<close>

fun lookup_backend :: "(nat \<Rightarrow> Backend) \<Rightarrow> string \<Rightarrow> nat list \<Rightarrow> nat option" where
  "lookup_backend st u [] = None"
| "lookup_backend st u (a # as) = (if URL (st a) = u then Some a else lookup_backend st u as)"

text \<open>The loop \<open>for i, backend := range s.backends\<close> of \<open>RemoveBackend\<close>: the first index.\<close>

fun lookup_index :: "(nat \<Rightarrow> Backend) \<Rightarrow> string \<Rightarrow> nat list \<Rightarrow> nat \<Rightarrow> nat option" where
  "lookup_index st u [] i = None"
| "lookup_index st u (a # as) i =
     (if URL (st a) = u then Some i else lookup_index st u as (Suc i))"

text \<open>
  \<open>func (s *ServerPool) RemoveBackend(backendURL string) error\<close>. \<open>url.Parse\<close> belongs to
  Go's library: \<open>parse\<close> stands for \<open>url.Parse\<close> followed by \<open>String()\<close>, \<open>None\<close> when
  parsing fails. The result \<open>None\<close> is Go's \<open>nil\<close> error.
\<close>

definition RemoveBackend ::
  "(string \<Rightarrow> string option) \<Rightarrow> ServerPool \<Rightarrow> string \<Rightarrow> error option \<times> ServerPool" where
  "RemoveBackend parse s backendURL =
     (case parse backendURL of
        None \<Rightarrow> (Some ParseError, s)
      | Some u \<Rightarrow>
          (case lookup_index (store s) u (backends s) 0 of
             Some i \<Rightarrow> (None, s\<lparr>backends := take i (backends s) @ drop (i + 1) (backends s)\<rparr>)
           | None \<Rightarrow> (Some BackendNotFound, s)))"

text \<open>\<open>func (s *ServerPool) GetNextPeer() *Backend\<close>; \<open>len\<close> of a slice fits a \<open>uint64\<close>.\<close>

definition GetNextPeer :: "ServerPool \<Rightarrow> nat option \<times> ServerPool" where
  "GetNextPeer s =
     (let next = current s + 1;
          s' = s\<lparr>current := next\<rparr>;
          l = length (backends s')
      in if l = 0 then (None, s') else (Some (backends s' ! (unat next mod l)), s'))"

text \<open>\<open>func (s *ServerPool) MarkBackendStatus(backendUrl *url.URL, alive bool)\<close>\<close>

definition MarkBackendStatus :: "ServerPool \<Rightarrow> string \<Rightarrow> bool \<Rightarrow> ServerPool" where
  "MarkBackendStatus s backendUrl alive =
     (case lookup_backend (store s) backendUrl (backends s) of
        None \<Rightarrow> s
      | Some a \<Rightarrow> s\<lparr>store := (store s)(a := (store s a)\<lparr>Alive := alive\<rparr>)\<rparr>)"

text \<open>
  \<open>func (s *ServerPool) UpdateBackends(configs []config.BackendConfig) error\<close>. The loop
  carries \<open>newBackends\<close>; an existing backend is written through its pointer at once, so
  an error return leaves those writes behind and only \<open>s.backends\<close> as it was.
\<close>

fun UpdateBackends_loop ::
  "(string \<Rightarrow> string option) \<Rightarrow> BackendConfig list \<Rightarrow> ServerPool \<Rightarrow> nat list \<Rightarrow>
   error option \<times> ServerPool" where
  "UpdateBackends_loop parse [] s newBackends = (None, s\<lparr>backends := newBackends\<rparr>)"
| "UpdateBackends_loop parse (cfg # configs) s newBackends =
     (case parse (cfgURL cfg) of
        None \<Rightarrow> (Some ParseError, s)
      | Some u \<Rightarrow>
          (case lookup_backend (store s) u (backends s) of
             Some existing \<Rightarrow>
               UpdateBackends_loop parse configs
                 (s\<lparr>store := (store s)(existing := (store s existing)\<lparr>Weight := cfgWeight cfg\<rparr>)\<rparr>)
                 (newBackends @ [existing])
           | None \<Rightarrow>
               UpdateBackends_loop parse configs
                 (s\<lparr>store := (store s)(nextAddr s :=
                       \<lparr>URL = u, Alive = True, Weight = cfgWeight cfg, CurrentWeight = 0,
                        ReverseProxy = SingleHostProxy, ConnectionCount = 0,
                        MaxConnections = 0\<rparr>),
                    nextAddr := Suc (nextAddr s)\<rparr>)
                 (newBackends @ [nextAddr s])))"

definition UpdateBackends ::
  "(string \<Rightarrow> string option) \<Rightarrow> ServerPool \<Rightarrow> BackendConfig list \<Rightarrow> error option \<times> ServerPool" where
  "UpdateBackends parse s configs = UpdateBackends_loop parse configs s []"

text \<open>
  \<open>func (s *ServerPool) GetNextProxy(r *http.Request) *httputil.ReverseProxy\<close>: the proxy
  returned is the one of the chosen backend, so the result is the backend's address.
\<close>

definition GetNextProxy :: "ServerPool \<Rightarrow> nat option \<times> ServerPool" where
  "GetNextProxy s =
     (case GetNextPeer s of
        (Some backend, s') \<Rightarrow>
          (Some backend,
           s'\<lparr>store := (store s')(backend := (store s' backend)
                 \<lparr>ConnectionCount := AddInt32 (ConnectionCount (store s' backend)) 1\<rparr>)\<rparr>)
      | (None, s') \<Rightarrow> (None, s'))"

section \<open>The proxy error handler set by AddBackend\<close>

text \<open>
  What the handler reads of the request: the value stored under \<open>RetryKey\<close> in its
  context (\<open>None\<close> when absent or not an \<open>int\<close>) and whether the context is done.
\<close>

record Request =
  ctxRetry :: "int option"
  ctxDone :: bool

text \<open>\<open>func GetRetryFromContext(r *http.Request) int\<close>\<close>

definition GetRetryFromContext :: "Request \<Rightarrow> int" where
  "GetRetryFromContext r = (case ctxRetry r of Some retry \<Rightarrow> retry | None \<Rightarrow> 0)"

text \<open>What has been written to the \<open>http.ResponseWriter\<close>: nothing yet, or one response.\<close>

datatype response = FromUpstream string | Status nat string

text \<open>
  \<open>proxy.ServeHTTP(w, r)\<close> of the standard reverse proxy and the \<open>ErrorHandler\<close> closure
  of \<open>AddBackend\<close> call each other. \<open>upstream u\<close> tells whether the round trip to the
  backend with URL \<open>u\<close> succeeds. On a transport error the proxy that \<open>AddBackend\<close>
  built calls the handler of its backend with the same request, its context included; the
  proxy that \<open>UpdateBackends\<close> built has no handler and writes 502 with an empty body.
  The chain of calls need not end, so both take fuel, and \<open>None\<close> means the fuel ran out
  before the chain returned.
\<close>

fun ServeHTTP ::
  "nat \<Rightarrow> (string \<Rightarrow> bool) \<Rightarrow> nat \<Rightarrow> Request \<Rightarrow> ServerPool \<times> response option \<Rightarrow>
   (ServerPool \<times> response option) option"
and ErrorHandler ::
  "nat \<Rightarrow> (string \<Rightarrow> bool) \<Rightarrow> string \<Rightarrow> Request \<Rightarrow> ServerPool \<times> response option \<Rightarrow>
   (ServerPool \<times> response option) option" where
  "ServeHTTP 0 upstream backend r sw = None"
| "ServeHTTP (Suc n) upstream backend r sw =
     (if upstream (URL (store (fst sw) backend))
      then Some (fst sw, Some (FromUpstream (URL (store (fst sw) backend))))
      else (case ReverseProxy (store (fst sw) backend) of
              ErrorHandlerProxy \<Rightarrow> ErrorHandler n upstream (URL (store (fst sw) backend)) r sw
            | SingleHostProxy \<Rightarrow> Some (fst sw, Some (Status 502 []))))"
| "ErrorHandler 0 upstream url r sw = None"
| "ErrorHandler (Suc n) upstream url r sw =
     (let s = MarkBackendStatus (fst sw) url False;
          retries = GetRetryFromContext r
      in if retries < 3 then
           (if ctxDone r then Some (s, snd sw)
            else (case GetNextProxy s of
                    (Some proxy, s') \<Rightarrow> ServeHTTP n upstream proxy r (s', snd sw)
                  | (None, s') \<Rightarrow>
                      Some (s', Some (Status 503 ''No proxy server available right now''))))
         else Some (s, snd sw))"

section \<open>Round-robin policy (package algorithm)\<close>

text \<open>\<open>algorithm.Server\<close>, the copy of a backend that \<open>GetBackends\<close> hands to a policy.\<close>

record Server =
  Server_URL :: string
  Server_Weight :: int
  Server_CurrentWeight :: int
  Server_ConnectionCount :: int32
  Server_MaxConnections :: int32
  Server_Alive :: bool

text \<open>\<open>func (s *ServerPool) GetBackends() []*algorithm.Server\<close>\<close>

definition GetBackends :: "ServerPool \<Rightarrow> Server list" where
  "GetBackends s =
     map (\<lambda>a. \<lparr>Server_URL = URL (store s a), Server_Weight = Weight (store s a),
               Server_CurrentWeight = CurrentWeight (store s a),
               Server_ConnectionCount = ConnectionCount (store s a),
               Server_MaxConnections = MaxConnections (store s a),
               Server_Alive = Alive (store s a)\<rparr>) (backends s)"

definition GetCurrentIndex :: "ServerPool \<Rightarrow> uint64" where
  "GetCurrentIndex s = current s"

definition SetCurrentIndex :: "ServerPool \<Rightarrow> uint64 \<Rightarrow> ServerPool" where
  "SetCurrentIndex s idx = s\<lparr>current := idx\<rparr>"

text \<open>
  Modelled from the spec: \<open>Server.CanAcceptConnection\<close> is not among the sources. The
  spec's capacity gate admits a backend whose connection count is below its
  \<open>max_connections\<close>.
\<close>

definition CanAcceptConnection :: "Server \<Rightarrow> bool" where
  "CanAcceptConnection server \<longleftrightarrow>
     sint (Server_ConnectionCount server) < sint (Server_MaxConnections server)"

text \<open>
  The loop \<open>for i := uint64(0); i < l; i++\<close> of \<open>NextServer\<close>. Both \<open>idx\<close> and \<open>i\<close> are
  below \<open>l\<close>, a slice length, so \<open>idx + i\<close> does not wrap and the indices are naturals.
\<close>

function NextServer_loop :: "Server list \<Rightarrow> nat \<Rightarrow> nat \<Rightarrow> Server option" where
  "NextServer_loop servers idx i =
     (let l = length servers in
      if i < l then
        (let serverIdx = (idx + i) mod l;
             server = servers ! serverIdx
         in if Server_Alive server \<and> CanAcceptConnection server then Some server
            else NextServer_loop servers idx (i + 1))
      else None)"
  by pat_completeness auto
termination
  by (relation "measure (\<lambda>(servers, idx, i). length servers - i)") auto

text \<open>\<open>func (rr *RoundRobin) NextServer(pool ServerPool, _ *http.Request) *Server\<close>\<close>

definition NextServer :: "ServerPool \<Rightarrow> Server option \<times> ServerPool" where
  "NextServer pool =
     (let servers = GetBackends pool in
      if length servers = 0 then (None, pool)
      else
        (let currentIdx = GetCurrentIndex pool;
             next = currentIdx + 1;
             pool' = SetCurrentIndex pool next;
             idx = unat next mod length servers
         in (NextServer_loop servers idx 0, pool')))"

text \<open>\<open>n\<close> calls of \<open>NextServer\<close> one after the other, with what each returned.\<close>

fun NextServer_calls :: "nat \<Rightarrow> ServerPool \<Rightarrow> Server option list \<times> ServerPool" where
  "NextServer_calls 0 pool = ([], pool)"
| "NextServer_calls (Suc n) pool =
     (case NextServer pool of
        (r, pool') \<Rightarrow> (case NextServer_calls n pool' of (rs, pool'') \<Rightarrow> (r # rs, pool'')))"

section \<open>Admin handler for backends (package admin)\<close>

text \<open>
  \<open>service.LocationInfo\<close> and \<open>service.ServiceInfo\<close> as far as \<open>handleBackends\<close> reads
  them; \<open>LocationPool\<close> names the location's server pool.
\<close>

record LocationInfo =
  Path :: string
  LocationPool :: nat

record ServiceInfo =
  Name :: string
  Locations :: "LocationInfo list"

text \<open>
  Where the handler ends: an \<open>http.Error\<close> with its status and message, or one of the three
  cases of the method switch, entered with the location it resolved.
\<close>

datatype outcome =
    HttpError nat string
  | GetBackendsCase LocationInfo
  | AddBackendCase LocationInfo
  | RemoveBackendCase LocationInfo

text \<open>The loop \<open>for _, loc := range srvc.Locations\<close> with its \<open>break\<close>.\<close>

fun find_location :: "string \<Rightarrow> LocationInfo list \<Rightarrow> LocationInfo option" where
  "find_location serviceLocation [] = None"
| "find_location serviceLocation (loc # locs) =
     (if Path loc = serviceLocation then Some loc else find_location serviceLocation locs)"

definition method_switch :: "string \<Rightarrow> LocationInfo \<Rightarrow> outcome" where
  "method_switch method location =
     (if method = ''GET'' then GetBackendsCase location
      else if method = ''POST'' then AddBackendCase location
      else if method = ''DELETE'' then RemoveBackendCase location
      else HttpError 405 ''Method not allowed'')"

text \<open>
  \<open>func (a *AdminAPI) handleBackends(w http.ResponseWriter, r *http.Request)\<close>, from the
  two query parameters, the method and the service manager's lookup by name.
\<close>

definition handleBackends ::
  "(string \<Rightarrow> ServiceInfo option) \<Rightarrow> string \<Rightarrow> string \<Rightarrow> string \<Rightarrow> outcome" where
  "handleBackends GetServiceByName serviceName serviceLocation method =
     (if serviceName = [] then HttpError 400 ''service_name is required''
      else
        (case GetServiceByName serviceName of
           None \<Rightarrow> HttpError 404 ''Service not found''
         | Some srvc \<Rightarrow>
             (let location = find_location serviceLocation (Locations srvc) in
              if location = None \<and> serviceLocation = [] then
                (if length (Locations srvc) = 1
                 then method_switch method (Locations srvc ! 0)
                 else HttpError 400
                   ''location parameter is required for services with multiple locations'')
              else HttpError 404 ''Location not found'')))"

section \<open>Vocabulary of the properties\<close>

text \<open>The capacity invariant of one backend: \<open>0 \<le> connection_count \<le> max_connections\<close>.\<close>

definition within_capacity :: "Backend \<Rightarrow> bool" where
  "within_capacity b \<longleftrightarrow>
     0 \<le> sint (ConnectionCount b) \<and> sint (ConnectionCount b) \<le> sint (MaxConnections b)"

text \<open>
  Sequences of calls on one backend, the backends they visit, and the sequences in which
  every release finds a slot taken.
\<close>

datatype counter_call = Acquire | Release

fun call :: "Backend \<Rightarrow> counter_call \<Rightarrow> Backend" where
  "call b Acquire = snd (IncrementConnections b)"
| "call b Release = DecrementConnections b"

fun visited :: "Backend \<Rightarrow> counter_call list \<Rightarrow> Backend list" where
  "visited b [] = [b]"
| "visited b (c # cs) = b # visited (call b c) cs"

fun releases_matched :: "Backend \<Rightarrow> counter_call list \<Rightarrow> bool" where
  "releases_matched b [] = True"
| "releases_matched b (Acquire # cs) = releases_matched (call b Acquire) cs"
| "releases_matched b (Release # cs) =
     (0 < sint (ConnectionCount b) \<and> releases_matched (call b Release) cs)"


text \<open>A backend is acceptable to a policy when it is alive and has capacity left.\<close>

definition acceptable :: "Server \<Rightarrow> bool" where
  "acceptable server \<longleftrightarrow> Server_Alive server \<and> CanAcceptConnection server"

text \<open>
  The backend that the cyclic scan of \<open>NextServer\<close> looks at in its \<open>i\<close>-th step: the
  scan starts at the advanced cursor modulo the number of backends.
\<close>

definition scan_position :: "ServerPool \<Rightarrow> nat \<Rightarrow> Server" where
  "scan_position pool i =
     GetBackends pool !
       ((unat (current pool + 1) mod length (GetBackends pool) + i) mod length (GetBackends pool))"

text \<open>
  The index that the \<open>j\<close>-th call of a run of \<open>NextServer\<close> calls chooses when every
  backend is acceptable and the cursor does not wrap around.
\<close>

definition chosen_index :: "ServerPool \<Rightarrow> nat \<Rightarrow> nat" where
  "chosen_index pool j = (unat (current pool) + 1 + j) mod length (GetBackends pool)"

text \<open>Every pointer of the pool was allocated: it lies below \<open>nextAddr\<close>.\<close>

definition allocated :: "ServerPool \<Rightarrow> bool" where
  "allocated s \<longleftrightarrow> list_all (\<lambda>a. a < nextAddr s) (backends s)"

text \<open>
  Two backend objects that differ at most in \<open>Weight\<close>, and the object that
  \<open>UpdateBackends\<close> allocates for a URL it does not find.
\<close>

definition same_but_weight :: "Backend \<Rightarrow> Backend \<Rightarrow> bool" where
  "same_but_weight b b' \<longleftrightarrow> b' = b\<lparr>Weight := Weight b'\<rparr>"

definition fresh_backend :: "string \<Rightarrow> int \<Rightarrow> Backend" where
  "fresh_backend u w =
     \<lparr>URL = u, Alive = True, Weight = w, CurrentWeight = 0,
      ReverseProxy = SingleHostProxy, ConnectionCount = 0, MaxConnections = 0\<rparr>"

text \<open>Whether the handler ended in one of the backend operations.\<close>

fun backend_operation :: "outcome \<Rightarrow> bool" where
  "backend_operation (HttpError code msg) = False"
| "backend_operation (GetBackendsCase loc) = True"
| "backend_operation (AddBackendCase loc) = True"
| "backend_operation (RemoveBackendCase loc) = True"

section \<open>Concrete pools and requests\<close>

text \<open>Backends as \<open>AddBackend\<close> builds them, with the proxy that carries its handler.\<close>

definition backend_of :: "string \<Rightarrow> bool \<Rightarrow> int32 \<Rightarrow> int32 \<Rightarrow> Backend" where
  "backend_of u alive count limit =
     \<lparr>URL = u, Alive = alive, Weight = 1, CurrentWeight = 0,
      ReverseProxy = ErrorHandlerProxy, ConnectionCount = count, MaxConnections = limit\<rparr>"

definition pool_of :: "Backend list \<Rightarrow> uint64 \<Rightarrow> ServerPool" where
  "pool_of bs cursor =
     \<lparr>store = (\<lambda>a. if a < length bs then bs ! a else backend_of [] False 0 0),
      nextAddr = length bs, backends = [0..<length bs], current = cursor,
      maxConnections = 1000\<rparr>"

definition plain_request :: Request where
  "plain_request = \<lparr>ctxRetry = None, ctxDone = False\<rparr>"

definition mixed_pool :: ServerPool where
  "mixed_pool =
     pool_of [backend_of ''http://b0'' True 2 2, backend_of ''http://b1'' False 0 2,
              backend_of ''http://b2'' True 1 2] 0"

definition twin_pool :: ServerPool where
  "twin_pool =
     pool_of [backend_of ''http://b0'' True 1 2, backend_of ''http://b1'' True 0 2,
              backend_of ''http://b1'' False 2 2] 7"

definition api_service :: ServiceInfo where
  "api_service = \<lparr>Name = ''backend-api'', Locations = [\<lparr>Path = ''/api/'', LocationPool = 0\<rparr>]\<rparr>"

definition one_service :: "string \<Rightarrow> ServiceInfo option" where
  "one_service name = (if name = ''backend-api'' then Some api_service else None)"

definition two_configs :: "BackendConfig list" where
  "two_configs =
     [\<lparr>cfgURL = ''http://b1'', cfgWeight = 5, cfgMaxConnections = 0\<rparr>,
      \<lparr>cfgURL = ''http://b7'', cfgWeight = 3, cfgMaxConnections = 9\<rparr>]"

text \<open>
  What \<open>url.Parse\<close> followed by \<open>String()\<close> gives on the strings of the example below:
  \<open>url.Parse\<close> lower-cases the scheme, so \<open>HTTP://b1\<close> comes back as \<open>http://b1\<close>; the
  other strings used are already in that form and come back as they are.
\<close>

definition parse_folding_scheme :: "string \<Rightarrow> string option" where
  "parse_folding_scheme u = (if u = ''HTTP://b1'' then Some ''http://b1'' else Some u)"

definition three_servers :: ServerPool where
  "three_servers =
     pool_of [backend_of ''http://b0'' True 0 10, backend_of ''http://b1'' True 0 10,
              backend_of ''http://b2'' True 0 10] 0"

section \<open>The connection counter\<close>

declare IncrementConnections.simps [simp del]
declare NextServer_loop.simps [simp del]

lemma sint_succ_below:
  fixes c m :: int32
  assumes "sint c < sint m"
  shows "sint (c + 1) = sint c + 1"
proof -
  have "sint m < 2 ^ 31" using sint_lt [of m] by simp
  moreover have "- (2 ^ 31) \<le> sint c" using sint_ge [of c] by simp
  ultimately have "- (2 ^ 31) \<le> sint c + 1 \<and> sint c + 1 < 2 ^ 31" using assms by simp
  then show ?thesis
    by (simp add: sint_word_ariths signed_take_bit_int_eq_self)
qed

lemma sint_pred_above:
  fixes c :: int32
  assumes "0 < sint c"
  shows "sint (c - 1) = sint c - 1"
proof -
  have "sint c < 2 ^ 31" using sint_lt [of c] by simp
  with assms have "- (2 ^ 31) \<le> sint c - 1 \<and> sint c - 1 < 2 ^ 31" by simp
  then show ?thesis
    by (simp add: sint_word_ariths signed_take_bit_int_eq_self)
qed

lemma IncrementConnections_eq:
  "IncrementConnections b =
     (if sint (ConnectionCount b) < sint (MaxConnections b)
      then (True, b\<lparr>ConnectionCount := ConnectionCount b + 1\<rparr>) else (False, b))"
  by (subst IncrementConnections.simps)
     (simp add: LoadInt32_def CompareAndSwapInt32_def Let_def)







lemma DecrementConnections_eq:
  "DecrementConnections b = b\<lparr>ConnectionCount := ConnectionCount b - 1\<rparr>"
  by (simp add: DecrementConnections_def AddInt32_def)

lemma within_capacity_Acquire:
  "within_capacity b \<Longrightarrow> within_capacity (call b Acquire)"
  by (auto simp: within_capacity_def IncrementConnections_eq sint_succ_below)

lemma within_capacity_Release:
  "within_capacity b \<Longrightarrow> 0 < sint (ConnectionCount b) \<Longrightarrow> within_capacity (call b Release)"
  by (auto simp: within_capacity_def DecrementConnections_eq sint_pred_above)

text \<open>
  C5, as the spec words it, fails: a release on a backend whose connection count is zero
  does not leave the count at zero.
\<close>

theorem DecrementConnections_zero_counterexample:
  "ConnectionCount (backend_of ''http://b0'' True 0 2) = 0
   \<and> ConnectionCount (DecrementConnections (backend_of ''http://b0'' True 0 2)) \<noteq> 0"
  by (simp add: backend_of_def DecrementConnections_eq)

text \<open>
  C5, amended. \<open>DecrementConnections\<close> subtracts one from the connection count whatever
  it holds: on a backend whose count is zero it leaves \<open>-1\<close>, there is no floor at zero; on
  a backend whose count is positive it leaves one less.
\<close>

theorem DecrementConnections_no_floor:
  "DecrementConnections b = b\<lparr>ConnectionCount := ConnectionCount b - 1\<rparr>
   \<and> (ConnectionCount b = 0 \<longrightarrow> sint (ConnectionCount (DecrementConnections b)) = - 1)
   \<and> (0 < sint (ConnectionCount b) \<longrightarrow>
        sint (ConnectionCount (DecrementConnections b)) = sint (ConnectionCount b) - 1)"
  by (simp add: DecrementConnections_eq sint_pred_above)

theorem DecrementConnections_no_floor_witness:
  "ConnectionCount (backend_of ''http://b0'' True 0 2) = 0
   \<and> sint (ConnectionCount (DecrementConnections (backend_of ''http://b0'' True 0 2))) = - 1
   \<and> 0 < sint (ConnectionCount (backend_of ''http://b0'' True 2 2))
   \<and> sint (ConnectionCount (DecrementConnections (backend_of ''http://b0'' True 2 2))) = 1"
  using DecrementConnections_no_floor [of "backend_of ''http://b0'' True 0 2"]
    DecrementConnections_no_floor [of "backend_of ''http://b0'' True 2 2"]
  by (simp add: backend_of_def)

text \<open>
  C1, as the spec words it, fails at both ends: one \<open>DecrementConnections\<close> on an idle
  backend leaves a negative count, and one \<open>GetNextProxy\<close> on a pool whose only backend is
  at its limit leaves the count above the limit.
\<close>

theorem within_capacity_counterexample:
  "within_capacity (backend_of ''http://b0'' True 0 2)
   \<and> \<not> within_capacity (call (backend_of ''http://b0'' True 0 2) Release)
   \<and> within_capacity (store (pool_of [backend_of ''http://b0'' True 2 2] 0) 0)
   \<and> fst (GetNextProxy (pool_of [backend_of ''http://b0'' True 2 2] 0)) = Some 0
   \<and> \<not> within_capacity (store (snd (GetNextProxy (pool_of [backend_of ''http://b0'' True 2 2] 0))) 0)"
  by (simp add: within_capacity_def backend_of_def pool_of_def DecrementConnections_eq
      GetNextProxy_def GetNextPeer_def AddInt32_def Let_def)

text \<open>
  C1, amended. For a backend that starts with \<open>0 \<le> connection_count \<le> max_connections\<close>,
  every sequence of \<open>IncrementConnections\<close> and \<open>DecrementConnections\<close> calls in which each
  \<open>DecrementConnections\<close> finds a positive count keeps the count between \<open>0\<close> and
  \<open>max_connections\<close> at every point, the limit itself never changing.
\<close>

theorem within_capacity_kept:
  "within_capacity b \<Longrightarrow> releases_matched b cs \<Longrightarrow>
   (\<forall>b' \<in> set (visited b cs). within_capacity b' \<and> MaxConnections b' = MaxConnections b)"
proof (induction cs arbitrary: b)
  case Nil
  then show ?case by simp
next
  case (Cons c cs)
  show ?case
  proof (cases c)
    case Acquire
    have m: "MaxConnections (call b Acquire) = MaxConnections b"
      by (simp add: IncrementConnections_eq)
    from Cons.prems Acquire have "within_capacity (call b c)" "releases_matched (call b c) cs"
      using within_capacity_Acquire [of b] by simp_all
    from Cons.IH [OF this] Cons.prems(1) m Acquire show ?thesis by simp
  next
    case Release
    have m: "MaxConnections (call b Release) = MaxConnections b"
      by (simp add: DecrementConnections_eq)
    from Cons.prems Release have "within_capacity (call b c)" "releases_matched (call b c) cs"
      using within_capacity_Release [of b] by simp_all
    from Cons.IH [OF this] Cons.prems(1) m Release show ?thesis by simp
  qed
qed

theorem within_capacity_kept_witness:
  "within_capacity (backend_of ''http://b0'' True 0 1)
   \<and> releases_matched (backend_of ''http://b0'' True 0 1) [Acquire, Acquire, Release, Acquire]
   \<and> map (\<lambda>b. sint (ConnectionCount b))
        (visited (backend_of ''http://b0'' True 0 1) [Acquire, Acquire, Release, Acquire])
      = [0, 1, 1, 0, 1]
   \<and> list_all (\<lambda>b'. within_capacity b' \<and> MaxConnections b' = 1)
        (visited (backend_of ''http://b0'' True 0 1) [Acquire, Acquire, Release, Acquire])"
proof -
  have w: "within_capacity (backend_of ''http://b0'' True 0 1)"
    by (simp add: within_capacity_def backend_of_def)
  have r: "releases_matched (backend_of ''http://b0'' True 0 1) [Acquire, Acquire, Release, Acquire]"
    by (simp add: backend_of_def IncrementConnections_eq DecrementConnections_eq)
  have v: "map (\<lambda>b. sint (ConnectionCount b))
        (visited (backend_of ''http://b0'' True 0 1) [Acquire, Acquire, Release, Acquire])
      = [0, 1, 1, 0, 1]"
    by (simp add: backend_of_def IncrementConnections_eq DecrementConnections_eq)
  from within_capacity_kept [OF w r] w r v show ?thesis
    by (simp add: backend_of_def list_all_iff)
qed

section \<open>Selection by the pool\<close>

text \<open>
  C3 asks that \<open>GetNextPeer\<close> and \<open>GetNextProxy\<close> return only backends that are alive and
  were acquired within their limit. On the pool whose only backend is marked not alive and
  is at its limit, where \<open>IncrementConnections\<close> refuses, both return that backend, and
  \<open>GetNextProxy\<close> raises its count to 3 with a limit of 2.
\<close>

theorem GetNextPeer_returns_dead_full_backend:
  "\<not> Alive (store (pool_of [backend_of ''http://b0'' False 2 2] 0) 0)
   \<and> \<not> fst (IncrementConnections (store (pool_of [backend_of ''http://b0'' False 2 2] 0) 0))
   \<and> fst (GetNextPeer (pool_of [backend_of ''http://b0'' False 2 2] 0)) = Some 0
   \<and> fst (GetNextProxy (pool_of [backend_of ''http://b0'' False 2 2] 0)) = Some 0
   \<and> sint (ConnectionCount
        (store (snd (GetNextProxy (pool_of [backend_of ''http://b0'' False 2 2] 0))) 0)) = 3
   \<and> sint (MaxConnections
        (store (snd (GetNextProxy (pool_of [backend_of ''http://b0'' False 2 2] 0))) 0)) = 2"
  by (simp add: backend_of_def pool_of_def IncrementConnections_eq
      GetNextProxy_def GetNextPeer_def AddInt32_def Let_def)

section \<open>The retry path\<close>

lemma backends_MarkBackendStatus [simp]:
  "backends (MarkBackendStatus s u alive) = backends s"
  by (simp add: MarkBackendStatus_def split: option.split)

lemma ReverseProxy_MarkBackendStatus [simp]:
  "ReverseProxy (store (MarkBackendStatus s u alive) x) = ReverseProxy (store s x)"
  by (simp add: MarkBackendStatus_def split: option.split)

lemma GetNextProxy_nonempty:
  assumes "backends s \<noteq> []"
  shows "\<exists>a s'. GetNextProxy s = (Some a, s') \<and> backends s' = backends s
           \<and> (\<forall>x. ReverseProxy (store s' x) = ReverseProxy (store s x))"
  using assms by (simp add: GetNextProxy_def GetNextPeer_def Let_def)

lemma retry_chain_never_returns:
  assumes "\<forall>u. \<not> upstream u" "GetRetryFromContext r < 3" "\<not> ctxDone r"
  shows "backends (fst sw) \<noteq> [] \<Longrightarrow>
         \<forall>x. ReverseProxy (store (fst sw) x) = ErrorHandlerProxy \<Longrightarrow>
         ErrorHandler n upstream u r sw = None \<and> ServeHTTP n upstream a r sw = None"
proof (induction n arbitrary: sw u a)
  case 0
  show ?case by simp
next
  case (Suc n)
  define s where "s = MarkBackendStatus (fst sw) u False"
  from Suc.prems have "backends s \<noteq> []" by (simp add: s_def)
  then obtain p s' where g: "GetNextProxy s = (Some p, s')" and b: "backends s' = backends s"
    and k: "\<forall>x. ReverseProxy (store s' x) = ReverseProxy (store s x)"
    using GetNextProxy_nonempty by blast
  from b Suc.prems have ne: "backends (fst (s', snd sw)) \<noteq> []" by (simp add: s_def)
  from k Suc.prems(2) have px: "\<forall>x. ReverseProxy (store (fst (s', snd sw)) x) = ErrorHandlerProxy"
    by (simp add: s_def)
  from Suc.IH [OF ne px] have "ServeHTTP n upstream p r (s', snd sw) = None" by blast
  with g assms have e: "ErrorHandler (Suc n) upstream u r sw = None"
    by (simp add: Let_def s_def)
  from Suc.IH [OF Suc.prems]
  have "ErrorHandler n upstream (URL (store (fst sw) a)) r sw = None" by blast
  with assms(1) Suc.prems(2) have "ServeHTTP (Suc n) upstream a r sw = None" by simp
  with e show ?case by blast
qed

text \<open>
  C2 asks that the error path release the failed backend's slot, retry at most 3 times and
  answer 503 after the third failed retry. On a pool with one backend whose round trips
  all fail, and a request with no retry count in its context, the chain of handler and
  proxy calls returns for no amount of fuel: the count read from the context is never
  raised, so the handler retries without bound and never answers. On a request whose
  context does hold the count 3, the handler marks the backend not alive and returns with
  nothing written and the backend's slot still taken.
\<close>

theorem ErrorHandler_retries_without_bound:
  "(\<forall>n. ErrorHandler n (\<lambda>u. False) ''http://b0'' plain_request
          (pool_of [backend_of ''http://b0'' True 1 2] 0, None) = None)
   \<and> map_option (\<lambda>sw. (snd sw, Alive (store (fst sw) 0), sint (ConnectionCount (store (fst sw) 0))))
        (ErrorHandler 1 (\<lambda>u. False) ''http://b0'' (plain_request\<lparr>ctxRetry := Some 3\<rparr>)
          (pool_of [backend_of ''http://b0'' True 1 2] 0, None))
      = Some (None, False, 1)"
proof -
  have "\<forall>n. ErrorHandler n (\<lambda>u. False) ''http://b0'' plain_request
          (pool_of [backend_of ''http://b0'' True 1 2] 0, None) = None"
    using retry_chain_never_returns [of "\<lambda>u. False" plain_request
        "(pool_of [backend_of ''http://b0'' True 1 2] 0, None)"]
    by (simp add: plain_request_def GetRetryFromContext_def pool_of_def backend_of_def)
  moreover have "map_option (\<lambda>sw. (snd sw, Alive (store (fst sw) 0), sint (ConnectionCount (store (fst sw) 0))))
        (ErrorHandler 1 (\<lambda>u. False) ''http://b0'' (plain_request\<lparr>ctxRetry := Some 3\<rparr>)
          (pool_of [backend_of ''http://b0'' True 1 2] 0, None))
      = Some (None, False, 1)"
    by (simp add: plain_request_def GetRetryFromContext_def pool_of_def backend_of_def
        MarkBackendStatus_def Let_def)
  ultimately show ?thesis by blast
qed

section \<open>The round-robin policy\<close>

lemma NextServer_loop_unfold:
  "NextServer_loop servers idx i =
     (if i < length servers then
        (if acceptable (servers ! ((idx + i) mod length servers))
         then Some (servers ! ((idx + i) mod length servers))
         else NextServer_loop servers idx (Suc i))
      else None)"
  by (subst NextServer_loop.simps) (simp add: Let_def acceptable_def)

lemma NextServer_loop_None:
  "NextServer_loop servers idx i = None \<longleftrightarrow>
     (\<forall>j. i \<le> j \<and> j < length servers \<longrightarrow>
        \<not> acceptable (servers ! ((idx + j) mod length servers)))"
proof (induction "length servers - i" arbitrary: i)
  case 0
  then have "length servers \<le> i" by simp
  then show ?case by (subst NextServer_loop_unfold) auto
next
  case (Suc d)
  then have lt: "i < length servers" and d: "d = length servers - Suc i" by simp_all
  show ?case
  proof (cases "acceptable (servers ! ((idx + i) mod length servers))")
    case True
    with lt show ?thesis by (subst NextServer_loop_unfold) auto
  next
    case False
    have "(\<forall>j. i \<le> j \<and> j < length servers \<longrightarrow>
             \<not> acceptable (servers ! ((idx + j) mod length servers)))
          \<longleftrightarrow> (\<forall>j. Suc i \<le> j \<and> j < length servers \<longrightarrow>
             \<not> acceptable (servers ! ((idx + j) mod length servers)))"
      using False by (metis Suc_leI le_neq_implies_less Suc_leD)
    with Suc.hyps(1) [OF d] False lt show ?thesis
      by (subst NextServer_loop_unfold) simp
  qed
qed

lemma NextServer_loop_first:
  assumes "i \<le> k" "k < length servers"
    "acceptable (servers ! ((idx + k) mod length servers))"
    "\<forall>j. i \<le> j \<and> j < k \<longrightarrow> \<not> acceptable (servers ! ((idx + j) mod length servers))"
  shows "NextServer_loop servers idx i = Some (servers ! ((idx + k) mod length servers))"
  using assms
proof (induction "k - i" arbitrary: i)
  case 0
  then have "i = k" by simp
  with 0 show ?case by (subst NextServer_loop_unfold) simp
next
  case (Suc d)
  then have lt: "i < k" and d: "d = k - Suc i" by simp_all
  with Suc.prems have na: "\<not> acceptable (servers ! ((idx + i) mod length servers))" by simp
  have "NextServer_loop servers idx (Suc i) = Some (servers ! ((idx + k) mod length servers))"
    using Suc.hyps(1) [OF d] lt Suc.prems by simp
  with na lt Suc.prems(2) show ?case by (subst NextServer_loop_unfold) simp
qed

lemma scan_reaches:
  fixes k N start :: nat
  assumes "k < N" "start < N"
  shows "\<exists>i<N. (start + i) mod N = k"
proof (cases "start \<le> k")
  case True
  with assms have "k - start < N \<and> (start + (k - start)) mod N = k" by simp
  then show ?thesis by blast
next
  case False
  with assms have "k + N - start < N \<and> (start + (k + N - start)) mod N = k" by simp
  then show ?thesis by blast
qed

lemma NextServer_eq:
  "GetBackends pool \<noteq> [] \<Longrightarrow>
   NextServer pool =
     (NextServer_loop (GetBackends pool)
        (unat (current pool + 1) mod length (GetBackends pool)) 0,
      pool\<lparr>current := current pool + 1\<rparr>)"
  by (simp add: NextServer_def Let_def GetCurrentIndex_def SetCurrentIndex_def)

text \<open>
  C6, as the spec words it, fails on the empty snapshot: \<open>NextServer\<close> returns nothing
  there before it touches the cursor, so the cursor is not advanced.
\<close>

theorem NextServer_empty_counterexample:
  "GetBackends (pool_of [] 5) = []
   \<and> fst (NextServer (pool_of [] 5)) = None
   \<and> current (snd (NextServer (pool_of [] 5))) \<noteq> current (pool_of [] 5) + 1"
  by (simp add: NextServer_def GetBackends_def pool_of_def)

text \<open>
  C6, amended. On an empty snapshot \<open>NextServer\<close> returns nothing and leaves the pool,
  cursor included, as it was. On a snapshot of \<open>N > 0\<close> backends with cursor \<open>c\<close> it
  advances the cursor by 1 (a \<open>uint64\<close> addition) and scans from position
  \<open>(c + 1) mod N\<close> forward cyclically for at most \<open>N\<close> steps: it returns the backend of the
  first step whose backend is alive and can accept a connection, and it returns nothing
  exactly when no backend of the snapshot is alive and can accept a connection.
\<close>

theorem NextServer_first_acceptable:
  "(GetBackends pool = [] \<longrightarrow> NextServer pool = (None, pool))
   \<and> (GetBackends pool \<noteq> [] \<longrightarrow>
        snd (NextServer pool) = pool\<lparr>current := current pool + 1\<rparr>
        \<and> (\<forall>i < length (GetBackends pool).
              acceptable (scan_position pool i) \<and> (\<forall>j < i. \<not> acceptable (scan_position pool j))
              \<longrightarrow> fst (NextServer pool) = Some (scan_position pool i))
        \<and> (fst (NextServer pool) = None \<longleftrightarrow> (\<forall>s \<in> set (GetBackends pool). \<not> acceptable s)))"
proof -
  let ?servers = "GetBackends pool"
  let ?N = "length ?servers"
  let ?start = "unat (current pool + 1) mod ?N"
  have empty: "?servers = [] \<longrightarrow> NextServer pool = (None, pool)"
    by (simp add: NextServer_def)
  have cursor: "?servers \<noteq> [] \<longrightarrow> snd (NextServer pool) = pool\<lparr>current := current pool + 1\<rparr>"
    by (simp add: NextServer_eq)
  have first: "?servers \<noteq> [] \<longrightarrow> (\<forall>i < ?N.
              acceptable (scan_position pool i) \<and> (\<forall>j < i. \<not> acceptable (scan_position pool j))
              \<longrightarrow> fst (NextServer pool) = Some (scan_position pool i))"
  proof (intro impI allI)
    fix i
    assume ne: "?servers \<noteq> []" and i: "i < ?N"
      and acc: "acceptable (scan_position pool i) \<and> (\<forall>j < i. \<not> acceptable (scan_position pool j))"
    have "NextServer_loop ?servers ?start 0 = Some (?servers ! ((?start + i) mod ?N))"
      using acc i by (intro NextServer_loop_first) (simp_all add: scan_position_def)
    with ne show "fst (NextServer pool) = Some (scan_position pool i)"
      by (simp add: NextServer_eq scan_position_def)
  qed
  have none: "?servers \<noteq> [] \<longrightarrow>
      (fst (NextServer pool) = None \<longleftrightarrow> (\<forall>s \<in> set ?servers. \<not> acceptable s))"
  proof
    assume ne: "?servers \<noteq> []"
    then have pos: "0 < ?N" by simp
    then have st: "?start < ?N" by simp
    have "(\<forall>j. j < ?N \<longrightarrow> \<not> acceptable (?servers ! ((?start + j) mod ?N)))
          \<longleftrightarrow> (\<forall>k < ?N. \<not> acceptable (?servers ! k))"
    proof
      assume a: "\<forall>j. j < ?N \<longrightarrow> \<not> acceptable (?servers ! ((?start + j) mod ?N))"
      show "\<forall>k < ?N. \<not> acceptable (?servers ! k)"
      proof (intro allI impI)
        fix k assume "k < ?N"
        from scan_reaches [OF this st] obtain i where "i < ?N" "(?start + i) mod ?N = k" by blast
        with a show "\<not> acceptable (?servers ! k)" by metis
      qed
    next
      assume a: "\<forall>k < ?N. \<not> acceptable (?servers ! k)"
      show "\<forall>j. j < ?N \<longrightarrow> \<not> acceptable (?servers ! ((?start + j) mod ?N))"
        using a pos by simp
    qed
    then have "NextServer_loop ?servers ?start 0 = None \<longleftrightarrow> (\<forall>s \<in> set ?servers. \<not> acceptable s)"
      by (simp add: NextServer_loop_None all_set_conv_all_nth)
    with ne show "fst (NextServer pool) = None \<longleftrightarrow> (\<forall>s \<in> set ?servers. \<not> acceptable s)"
      by (simp add: NextServer_eq)
  qed
  from empty cursor first none show ?thesis by blast
qed

theorem NextServer_first_acceptable_witness:
  "GetBackends mixed_pool \<noteq> []
   \<and> current (snd (NextServer mixed_pool)) = 1
   \<and> \<not> acceptable (scan_position mixed_pool 0)
   \<and> acceptable (scan_position mixed_pool 1)
   \<and> fst (NextServer mixed_pool) = Some (scan_position mixed_pool 1)
   \<and> Server_URL (scan_position mixed_pool 1) = ''http://b2''
   \<and> NextServer (pool_of [] 5) = (None, pool_of [] 5)"
proof -
  have w1: "GetBackends mixed_pool \<noteq> []"
    by (simp add: mixed_pool_def GetBackends_def pool_of_def)
  have w2: "length (GetBackends mixed_pool) = 3"
    by (simp add: mixed_pool_def GetBackends_def pool_of_def)
  have w3: "\<not> acceptable (scan_position mixed_pool 0)"
    by (simp add: mixed_pool_def GetBackends_def pool_of_def scan_position_def
        acceptable_def backend_of_def)
  have w4: "acceptable (scan_position mixed_pool 1)"
    by (simp add: mixed_pool_def GetBackends_def pool_of_def scan_position_def
        acceptable_def backend_of_def CanAcceptConnection_def)
  have w5: "Server_URL (scan_position mixed_pool 1) = ''http://b2''"
    by (simp add: mixed_pool_def GetBackends_def pool_of_def scan_position_def backend_of_def)
  have e: "GetBackends (pool_of [] 5) = []"
    by (simp add: GetBackends_def pool_of_def)
  have c: "current mixed_pool = 0"
    by (simp add: mixed_pool_def pool_of_def)
  from NextServer_first_acceptable [of mixed_pool] NextServer_first_acceptable [of "pool_of [] 5"]
    w1 w2 w3 w4 w5 e c
  show ?thesis by simp
qed

lemma GetBackends_cursor [simp]: "GetBackends (pool\<lparr>current := c\<rparr>) = GetBackends pool"
  by (simp add: GetBackends_def)

lemma NextServer_all_acceptable:
  assumes "GetBackends pool \<noteq> []" "list_all acceptable (GetBackends pool)"
  shows "NextServer pool =
           (Some (GetBackends pool ! (unat (current pool + 1) mod length (GetBackends pool))),
            pool\<lparr>current := current pool + 1\<rparr>)"
proof -
  let ?N = "length (GetBackends pool)"
  let ?idx = "unat (current pool + 1) mod ?N"
  from assms(1) have lt: "?idx < ?N" by simp
  with assms(2) have "acceptable (GetBackends pool ! ?idx)" by (simp add: list_all_length)
  with lt have "NextServer_loop (GetBackends pool) ?idx 0 = Some (GetBackends pool ! ?idx)"
    using NextServer_loop_unfold [of "GetBackends pool" ?idx 0] assms(1) by simp
  with assms(1) show ?thesis by (simp add: NextServer_eq)
qed

lemma unat_succ_no_wrap:
  fixes c :: uint64
  assumes "unat c + 1 < 2 ^ 64"
  shows "unat (c + 1) = unat c + 1"
  using assms by (simp add: unat_word_ariths)

lemma NextServer_calls_all_acceptable:
  assumes "GetBackends pool \<noteq> []" "list_all acceptable (GetBackends pool)"
    "unat (current pool) + n < 2 ^ 64"
  shows "fst (NextServer_calls n pool) =
           map (\<lambda>j. Some (GetBackends pool ! chosen_index pool j)) [0..<n]"
  using assms
proof (induction n arbitrary: pool)
  case 0
  show ?case by simp
next
  case (Suc n)
  let ?pool' = "pool\<lparr>current := current pool + 1\<rparr>"
  from Suc.prems(3) have u: "unat (current pool + 1) = unat (current pool) + 1"
    by (intro unat_succ_no_wrap) simp
  have step: "NextServer pool =
      (Some (GetBackends pool ! chosen_index pool 0), ?pool')"
    using NextServer_all_acceptable [OF Suc.prems(1,2)] u by (simp add: chosen_index_def)
  have "fst (NextServer_calls n ?pool') =
          map (\<lambda>j. Some (GetBackends ?pool' ! chosen_index ?pool' j)) [0..<n]"
    using Suc.prems u by (intro Suc.IH) simp_all
  moreover have "chosen_index ?pool' j = chosen_index pool (Suc j)" for j
    using u by (simp add: chosen_index_def)
  ultimately have rest: "fst (NextServer_calls n ?pool') =
          map (\<lambda>j. Some (GetBackends pool ! chosen_index pool (Suc j))) [0..<n]"
    by simp
  show ?case
    using step rest
    by (cases "NextServer_calls n ?pool'") (simp add: map_upt_Suc del: upt_Suc)
qed

lemma shift_mod_inj:
  fixes a N j j' :: nat
  assumes "j < N" "j' < N" "(a + j) mod N = (a + j') mod N"
  shows "j = j'"
proof -
  have le: "x = y" if "x \<le> y" "y < N" "(a + x) mod N = (a + y) mod N" for x y
  proof -
    from that have "N dvd (a + y) - (a + x)"
      using mod_eq_dvd_iff_nat [of "a + x" "a + y" N] by simp
    then have "N dvd y - x" by simp
    moreover from that have "y - x < N" by simp
    ultimately have "y - x = 0" using nat_dvd_not_less [of "y - x" N] by auto
    with that(1) show ?thesis by simp
  qed
  show ?thesis
  proof (cases "j \<le> j'")
    case True
    with assms show ?thesis using le [of j j'] by simp
  next
    case False
    then have "j' \<le> j" by simp
    with assms have "j' = j" using le [of j' j] by simp
    then show ?thesis by simp
  qed
qed

lemma residue_once:
  fixes a N i :: nat
  assumes "i < N"
  shows "length (filter (\<lambda>j. (a + j) mod N = i) [0..<N]) = 1"
proof -
  from assms have pos: "0 < N" by simp
  define j0 where "j0 = (i + N - a mod N) mod N"
  have j0: "j0 < N" using pos by (simp add: j0_def)
  have "(a + j0) mod N = (a mod N + (i + N - a mod N)) mod N"
    by (simp add: j0_def mod_simps)
  also have "a mod N + (i + N - a mod N) = i + N"
    using mod_less_divisor [OF pos, of a] by simp
  finally have hit: "(a + j0) mod N = i" using assms by simp
  have uniq: "j = j0" if "j < N" "(a + j) mod N = i" for j
    using shift_mod_inj [OF that(1) j0, of a] that(2) hit by simp
  have "{j. (a + j) mod N = i} \<inter> set [0..<N] = {j0}"
  proof (rule set_eqI)
    fix j
    show "j \<in> {j. (a + j) mod N = i} \<inter> set [0..<N] \<longleftrightarrow> j \<in> {j0}"
      using hit j0 uniq [of j] by auto
  qed
  then show ?thesis
    by (simp add: distinct_length_filter)
qed

lemma residue_count:
  fixes a N i k :: nat
  assumes "i < N"
  shows "length (filter (\<lambda>j. (a + j) mod N = i) [0..<k * N]) = k"
proof (induction k)
  case 0
  show ?case by simp
next
  case (Suc k)
  have "[0..<k * N + N] = [0..<k * N] @ [k * N..<k * N + N]"
    by (rule upt_add_eq_append) simp
  moreover have "[k * N..<k * N + N] = map (\<lambda>j. j + k * N) [0..<N]"
    by (simp add: map_add_upt add.commute)
  ultimately have split: "[0..<Suc k * N] = [0..<k * N] @ map (\<lambda>j. j + k * N) [0..<N]"
    by (simp add: add.commute)
  have shift: "(a + (j + k * N)) mod N = (a + j) mod N" for j
    by (simp add: add.assoc [symmetric])
  have "length (filter (\<lambda>j. (a + j) mod N = i) (map (\<lambda>j. j + k * N) [0..<N]))
        = length (filter (\<lambda>j. (a + j) mod N = i) [0..<N])"
    by (simp only: filter_map comp_def shift length_map)
  with split Suc.IH residue_once [OF assms, of a] show ?case by (simp only: filter_append length_append)
qed

text \<open>
  C7, as the spec words it, fails where the \<open>uint64\<close> cursor wraps around within the
  window: with three acceptable backends and the cursor at \<open>2^64 - 2\<close>, a window of
  \<open>1 * 3\<close> calls selects the first backend twice and the third not at all, since \<open>2^64\<close> is
  not a multiple of 3.
\<close>

theorem NextServer_wraparound_counterexample:
  "list_all acceptable (GetBackends (three_servers\<lparr>current := 18446744073709551614\<rparr>))
   \<and> map (map_option Server_URL)
        (fst (NextServer_calls (1 * 3) (three_servers\<lparr>current := 18446744073709551614\<rparr>)))
      = [Some ''http://b0'', Some ''http://b0'', Some ''http://b1'']"
proof -
  have g: "GetBackends three_servers =
      [\<lparr>Server_URL = ''http://b0'', Server_Weight = 1, Server_CurrentWeight = 0,
        Server_ConnectionCount = 0, Server_MaxConnections = 10, Server_Alive = True\<rparr>,
       \<lparr>Server_URL = ''http://b1'', Server_Weight = 1, Server_CurrentWeight = 0,
        Server_ConnectionCount = 0, Server_MaxConnections = 10, Server_Alive = True\<rparr>,
       \<lparr>Server_URL = ''http://b2'', Server_Weight = 1, Server_CurrentWeight = 0,
        Server_ConnectionCount = 0, Server_MaxConnections = 10, Server_Alive = True\<rparr>]"
    by (simp add: three_servers_def GetBackends_def pool_of_def backend_of_def)
  have acc: "list_all acceptable (GetBackends three_servers)"
    by (simp add: g acceptable_def CanAcceptConnection_def)
  have step: "NextServer (three_servers\<lparr>current := c\<rparr>) =
      (Some (GetBackends three_servers ! (unat (c + 1) mod 3)),
       three_servers\<lparr>current := c + 1\<rparr>)" for c
    using NextServer_all_acceptable [of "three_servers\<lparr>current := c\<rparr>"] acc by (simp add: g)
  have "fst (NextServer_calls (Suc (Suc (Suc 0))) (three_servers\<lparr>current := 18446744073709551614\<rparr>))
      = [Some (GetBackends three_servers ! 0), Some (GetBackends three_servers ! 0),
         Some (GetBackends three_servers ! 1)]"
    by (simp add: step)
  then show ?thesis using acc by (simp add: g numeral_3_eq_3)
qed

text \<open>
  C7, amended. For a round-robin pool of \<open>N > 0\<close> backends that are all alive and below
  capacity, and a cursor \<open>c\<close> that does not wrap around during the window
  (\<open>c + k * N < 2^64\<close>), the \<open>j\<close>-th of \<open>k * N\<close> consecutive \<open>NextServer\<close> calls selects
  the backend at index \<open>(c + 1 + j) mod N\<close>, and each of the \<open>N\<close> indices is selected by
  exactly \<open>k\<close> calls of the window.
\<close>

theorem NextServer_even_split:
  "GetBackends pool \<noteq> [] \<Longrightarrow> list_all acceptable (GetBackends pool) \<Longrightarrow>
   unat (current pool) + k * length (GetBackends pool) < 2 ^ 64 \<Longrightarrow>
   fst (NextServer_calls (k * length (GetBackends pool)) pool)
     = map (\<lambda>j. Some (GetBackends pool ! chosen_index pool j)) [0..<k * length (GetBackends pool)]
   \<and> (\<forall>i < length (GetBackends pool).
         length (filter (\<lambda>j. chosen_index pool j = i) [0..<k * length (GetBackends pool)]) = k)"
proof -
  assume a: "GetBackends pool \<noteq> []" "list_all acceptable (GetBackends pool)"
    "unat (current pool) + k * length (GetBackends pool) < 2 ^ 64"
  have "\<forall>i < length (GetBackends pool).
         length (filter (\<lambda>j. chosen_index pool j = i) [0..<k * length (GetBackends pool)]) = k"
    using residue_count [of _ "length (GetBackends pool)" "unat (current pool) + 1" k]
    by (simp add: chosen_index_def)
  with NextServer_calls_all_acceptable [OF a] show ?thesis by blast
qed

theorem NextServer_even_split_witness:
  "GetBackends three_servers \<noteq> []
   \<and> list_all acceptable (GetBackends three_servers)
   \<and> unat (current three_servers) + 2 * length (GetBackends three_servers) < 2 ^ 64
   \<and> map (map_option Server_URL) (fst (NextServer_calls 6 three_servers))
      = [Some ''http://b1'', Some ''http://b2'', Some ''http://b0'',
         Some ''http://b1'', Some ''http://b2'', Some ''http://b0'']
   \<and> list_all (\<lambda>i. length (filter (\<lambda>j. chosen_index three_servers j = i) [0..<6]) = 2) [0, 1, 2]"
proof -
  have g: "GetBackends three_servers =
      [\<lparr>Server_URL = ''http://b0'', Server_Weight = 1, Server_CurrentWeight = 0,
        Server_ConnectionCount = 0, Server_MaxConnections = 10, Server_Alive = True\<rparr>,
       \<lparr>Server_URL = ''http://b1'', Server_Weight = 1, Server_CurrentWeight = 0,
        Server_ConnectionCount = 0, Server_MaxConnections = 10, Server_Alive = True\<rparr>,
       \<lparr>Server_URL = ''http://b2'', Server_Weight = 1, Server_CurrentWeight = 0,
        Server_ConnectionCount = 0, Server_MaxConnections = 10, Server_Alive = True\<rparr>]"
    by (simp add: three_servers_def GetBackends_def pool_of_def backend_of_def)
  have c: "current three_servers = 0" by (simp add: three_servers_def pool_of_def)
  have h1: "GetBackends three_servers \<noteq> []" by (simp add: g)
  have h2: "list_all acceptable (GetBackends three_servers)"
    by (simp add: g acceptable_def CanAcceptConnection_def)
  have h3: "unat (current three_servers) + 2 * length (GetBackends three_servers) < 2 ^ 64"
    by (simp add: g c)
  from NextServer_even_split [OF h1 h2 h3] h1 h2 h3 show ?thesis
    by (simp add: g c chosen_index_def upt_rec)
qed

section \<open>Changing the backend list\<close>

lemma lookup_index_None:
  "lookup_index st u as i = None \<longleftrightarrow> (\<forall>a \<in> set as. URL (st a) \<noteq> u)"
  by (induction as arbitrary: i) auto

lemma lookup_index_Some:
  "lookup_index st u as i = Some k \<Longrightarrow>
   \<exists>pre a post. as = pre @ a # post \<and> URL (st a) = u \<and> (\<forall>x \<in> set pre. URL (st x) \<noteq> u)
      \<and> k = i + length pre"
proof (induction as arbitrary: i)
  case Nil
  then show ?case by simp
next
  case (Cons b as)
  show ?case
  proof (cases "URL (st b) = u")
    case True
    with Cons.prems have "b # as = [] @ b # as \<and> URL (st b) = u \<and> k = i + length ([] :: nat list)"
      by simp
    then show ?thesis by (metis empty_iff list.set(1))
  next
    case False
    with Cons.prems have "lookup_index st u as (Suc i) = Some k" by simp
    from Cons.IH [OF this] obtain pre a post where
      h: "as = pre @ a # post" "URL (st a) = u" "\<forall>x \<in> set pre. URL (st x) \<noteq> u"
         "k = Suc i + length pre" by blast
    with False have "b # as = (b # pre) @ a # post \<and> URL (st a) = u
        \<and> (\<forall>x \<in> set (b # pre). URL (st x) \<noteq> u) \<and> k = i + length (b # pre)"
      by simp
    then show ?thesis by blast
  qed
qed

text \<open>
  C8, as the spec words it, fails where \<open>url.Parse\<close> changes the string: no backend of the
  pool has a URL equal to \<open>HTTP://b1\<close>, yet \<open>RemoveBackend("HTTP://b1")\<close> returns no error
  and removes the first backend whose URL is \<open>http://b1\<close>, because the argument is parsed
  and its \<open>String()\<close> is what the backend URLs are compared with.
\<close>

theorem RemoveBackend_normalised_counterexample:
  "list_all (\<lambda>a. URL (store twin_pool a) \<noteq> ''HTTP://b1'') (backends twin_pool)
   \<and> fst (RemoveBackend parse_folding_scheme twin_pool ''HTTP://b1'') = None
   \<and> backends (snd (RemoveBackend parse_folding_scheme twin_pool ''HTTP://b1'')) = [0, 2]"
proof -
  have b: "backends twin_pool = [0, 1, 2]"
    by (simp add: twin_pool_def pool_of_def upt_rec)
  have st: "URL (store twin_pool 0) = ''http://b0''"
    "URL (store twin_pool (Suc 0)) = ''http://b1''" "URL (store twin_pool 2) = ''http://b1''"
    by (simp_all add: twin_pool_def pool_of_def backend_of_def)
  show ?thesis
    by (simp add: RemoveBackend_def parse_folding_scheme_def b st)
qed

text \<open>
  C8, amended. \<open>RemoveBackend(u)\<close> returns an error exactly when \<open>u\<close> does not parse or
  no backend of the pool has a URL equal to the normalised form of \<open>u\<close>, that is the
  \<open>String()\<close> of \<open>url.Parse(u)\<close>. On success the backend list is the previous list
  without the first backend whose URL equals that normalised form, the others in their
  order, and nothing else of the pool changes, the backend objects included. On an error
  the pool is unchanged.
\<close>

theorem RemoveBackend_first_match:
  "(fst (RemoveBackend parse s u) \<noteq> None \<longleftrightarrow>
      \<not> (\<exists>a \<in> set (backends s). Some (URL (store s a)) = parse u))
   \<and> (fst (RemoveBackend parse s u) = None \<longrightarrow>
        (\<exists>pre a post. backends s = pre @ a # post \<and> Some (URL (store s a)) = parse u
           \<and> (\<forall>x \<in> set pre. Some (URL (store s x)) \<noteq> parse u)
           \<and> snd (RemoveBackend parse s u) = s\<lparr>backends := pre @ post\<rparr>))
   \<and> (fst (RemoveBackend parse s u) \<noteq> None \<longrightarrow> snd (RemoveBackend parse s u) = s)"
proof (cases "parse u")
  case None
  then show ?thesis by (simp add: RemoveBackend_def)
next
  case (Some v)
  show ?thesis
  proof (cases "lookup_index (store s) v (backends s) 0")
    case None
    with Some have res: "RemoveBackend parse s u = (Some BackendNotFound, s)"
      by (simp add: RemoveBackend_def)
    from None have "\<forall>a \<in> set (backends s). URL (store s a) \<noteq> v"
      by (simp add: lookup_index_None)
    with res \<open>parse u = Some v\<close> show ?thesis by auto
  next
    case (Some k)
    from lookup_index_Some [OF this] obtain pre a post where
      h: "backends s = pre @ a # post" "URL (store s a) = v"
         "\<forall>x \<in> set pre. URL (store s x) \<noteq> v" "k = length pre" by auto
    then have cut: "take k (backends s) @ drop (k + 1) (backends s) = pre @ post" by simp
    have found: "\<exists>a \<in> set (backends s). Some (URL (store s a)) = parse u"
      using h \<open>parse u = Some v\<close> by auto
    have res: "RemoveBackend parse s u = (None, s\<lparr>backends := pre @ post\<rparr>)"
      using Some \<open>parse u = Some v\<close> cut by (simp add: RemoveBackend_def)
    have "\<exists>pre a post. backends s = pre @ a # post \<and> Some (URL (store s a)) = parse u
           \<and> (\<forall>x \<in> set pre. Some (URL (store s x)) \<noteq> parse u)
           \<and> snd (RemoveBackend parse s u) = s\<lparr>backends := pre @ post\<rparr>"
      using h res \<open>parse u = Some v\<close> by (intro exI [of _ pre] exI [of _ a] exI [of _ post]) simp
    with found res show ?thesis by simp
  qed
qed

theorem RemoveBackend_first_match_witness:
  "fst (RemoveBackend Some twin_pool ''http://b1'') = None
   \<and> backends twin_pool = [0, 1, 2]
   \<and> backends (snd (RemoveBackend Some twin_pool ''http://b1'')) = [0, 2]
   \<and> store (snd (RemoveBackend Some twin_pool ''http://b1'')) = store twin_pool
   \<and> fst (RemoveBackend Some twin_pool ''http://b9'') = Some BackendNotFound
   \<and> snd (RemoveBackend Some twin_pool ''http://b9'') = twin_pool
   \<and> parse_folding_scheme ''HTTP://b1'' = Some (URL (store twin_pool 1))
   \<and> fst (RemoveBackend parse_folding_scheme twin_pool ''HTTP://b1'') = None
   \<and> fst (RemoveBackend (\<lambda>u. None) twin_pool ''http://b1'') = Some ParseError"
proof -
  have b: "backends twin_pool = [0, 1, 2]"
    by (simp add: twin_pool_def pool_of_def upt_rec)
  have p: "parse_folding_scheme ''HTTP://b1'' = Some (URL (store twin_pool 1))"
    by (simp add: parse_folding_scheme_def twin_pool_def pool_of_def backend_of_def)
  have e: "fst (RemoveBackend (\<lambda>u. None) twin_pool ''http://b1'') = Some ParseError"
    by (simp add: RemoveBackend_def)
  have r1: "RemoveBackend Some twin_pool ''http://b1'' = (None, twin_pool\<lparr>backends := [0, 2]\<rparr>)"
    by (simp add: RemoveBackend_def b) (simp add: twin_pool_def pool_of_def backend_of_def)
  have r9: "fst (RemoveBackend Some twin_pool ''http://b9'') = Some BackendNotFound"
    by (simp add: RemoveBackend_def b) (simp add: twin_pool_def pool_of_def backend_of_def)
  from RemoveBackend_first_match [of parse_folding_scheme twin_pool "''HTTP://b1''"] p b
  have n: "fst (RemoveBackend parse_folding_scheme twin_pool ''HTTP://b1'') = None"
    by auto
  from RemoveBackend_first_match [of Some twin_pool "''http://b9''"]
    RemoveBackend_first_match [of Some twin_pool "''http://b1''"] b r1 r9 p n e
  show ?thesis by simp
qed

lemma lookup_backend_Some:
  "lookup_backend st u as = Some a \<Longrightarrow> a \<in> set as \<and> URL (st a) = u"
  by (induction as) (auto split: if_splits)

lemma lookup_backend_None:
  "lookup_backend st u as = None \<longleftrightarrow> (\<forall>a \<in> set as. URL (st a) \<noteq> u)"
  by (induction as) auto

lemma lookup_backend_cong:
  "(\<forall>x \<in> set as. URL (st' x) = URL (st x)) \<Longrightarrow>
   lookup_backend st' u as = lookup_backend st u as"
  by (induction as) auto

lemma UpdateBackends_loop_cases [consumes 1, case_names existing new]:
  assumes "UpdateBackends_loop parse (cfg # configs) s new = (None, s')"
  obtains
    (existing) u a where "parse (cfgURL cfg) = Some u"
      "lookup_backend (store s) u (backends s) = Some a"
      "UpdateBackends_loop parse configs
         (s\<lparr>store := (store s)(a := (store s a)\<lparr>Weight := cfgWeight cfg\<rparr>)\<rparr>) (new @ [a])
       = (None, s')"
  | (new) u where "parse (cfgURL cfg) = Some u"
      "lookup_backend (store s) u (backends s) = None"
      "UpdateBackends_loop parse configs
         (s\<lparr>store := (store s)(nextAddr s := fresh_backend u (cfgWeight cfg)),
            nextAddr := Suc (nextAddr s)\<rparr>) (new @ [nextAddr s])
       = (None, s')"
  using assms by (auto simp: fresh_backend_def split: option.splits)

lemma UpdateBackends_loop_ok:
  "fst (UpdateBackends_loop parse configs s new) = None \<longleftrightarrow>
     (\<forall>cfg \<in> set configs. parse (cfgURL cfg) \<noteq> None)"
  by (induction configs arbitrary: s new) (auto split: option.splits)

lemma UpdateBackends_loop_error:
  "fst (UpdateBackends_loop parse configs s new) \<noteq> None \<Longrightarrow>
   backends (snd (UpdateBackends_loop parse configs s new)) = backends s"
  by (induction configs arbitrary: s new) (auto split: option.splits)

lemma take_Suc_snoc:
  assumes "take (Suc n) xs = ys @ [a]" "length ys = n"
  shows "take n xs = ys" and "xs ! n = a"
proof -
  have "take n xs = take n (take (Suc n) xs)" by simp
  also have "\<dots> = ys" using assms by simp
  finally show "take n xs = ys" .
  have "xs ! n = take (Suc n) xs ! n" by simp
  also have "\<dots> = a" using assms by (simp add: nth_append)
  finally show "xs ! n = a" .
qed

lemma UpdateBackends_loop_shape:
  "UpdateBackends_loop parse configs s new = (None, s') \<Longrightarrow>
   take (length new) (backends s') = new
   \<and> length (backends s') = length new + length configs"
proof (induction configs arbitrary: s new)
  case Nil
  then show ?case by auto
next
  case (Cons cfg configs)
  from Cons.prems show ?case
  proof (cases rule: UpdateBackends_loop_cases)
    case (existing u a)
    from Cons.IH [OF existing(3)] have
      "take (Suc (length new)) (backends s') = new @ [a]"
      "length (backends s') = Suc (length new) + length configs" by simp_all
    then show ?thesis using take_Suc_snoc(1) [of "length new" "backends s'" new a] by simp
  next
    case (new u)
    from Cons.IH [OF new(3)] have
      "take (Suc (length new)) (backends s') = new @ [nextAddr s]"
      "length (backends s') = Suc (length new) + length configs" by simp_all
    then show ?thesis
      using take_Suc_snoc(1) [of "length new" "backends s'" new "nextAddr s"] by simp
  qed
qed

lemma UpdateBackends_loop_pushed:
  assumes "UpdateBackends_loop parse configs s (new @ [a]) = (None, s')"
  shows "backends s' ! length new = a"
proof -
  from UpdateBackends_loop_shape [OF assms]
  have "take (Suc (length new)) (backends s') = new @ [a]" by simp
  then show ?thesis by (rule take_Suc_snoc(2)) simp
qed

lemma same_but_weight_fields:
  assumes "same_but_weight b b'"
  shows "URL b' = URL b" and "Alive b' = Alive b" and "CurrentWeight b' = CurrentWeight b"
    and "ConnectionCount b' = ConnectionCount b" and "MaxConnections b' = MaxConnections b"
    and "ReverseProxy b' = ReverseProxy b"
proof -
  from assms have "\<exists>w. b' = b\<lparr>Weight := w\<rparr>"
    unfolding same_but_weight_def by (rule exI)
  then obtain w where "b' = b\<lparr>Weight := w\<rparr>" by blast
  then show "URL b' = URL b" and "Alive b' = Alive b" and "CurrentWeight b' = CurrentWeight b"
    and "ConnectionCount b' = ConnectionCount b" and "MaxConnections b' = MaxConnections b"
    and "ReverseProxy b' = ReverseProxy b"
    by simp_all
qed

lemma same_but_weight_trans:
  assumes "same_but_weight a b" "same_but_weight b c"
  shows "same_but_weight a c"
proof -
  from assms have "c = (a\<lparr>Weight := Weight b\<rparr>)\<lparr>Weight := Weight c\<rparr>"
    by (simp add: same_but_weight_def)
  then show ?thesis by (simp add: same_but_weight_def)
qed


lemma UpdateBackends_loop_frame:
  "UpdateBackends_loop parse configs s new = (None, s') \<Longrightarrow>
   nextAddr s \<le> nextAddr s'
   \<and> (\<forall>x < nextAddr s. same_but_weight (store s x) (store s' x))
   \<and> (\<forall>x < nextAddr s. x \<notin> set (backends s) \<longrightarrow> store s' x = store s x)
   \<and> (\<forall>x < nextAddr s. (\<forall>cfg \<in> set configs. parse (cfgURL cfg) \<noteq> Some (URL (store s x)))
          \<longrightarrow> store s' x = store s x)"
proof (induction configs arbitrary: s new)
  case Nil
  then show ?case by (auto simp: same_but_weight_def)
next
  case (Cons cfg configs)
  from Cons.prems show ?case
  proof (cases rule: UpdateBackends_loop_cases)
    case (existing u a)
    define s1 where "s1 = s\<lparr>store := (store s)(a := (store s a)\<lparr>Weight := cfgWeight cfg\<rparr>)\<rparr>"
    from lookup_backend_Some [OF existing(2)] have a: "a \<in> set (backends s)" "URL (store s a) = u"
      by simp_all
    have s1: "nextAddr s1 = nextAddr s" "backends s1 = backends s"
      "\<And>x. x \<noteq> a \<Longrightarrow> store s1 x = store s x"
      "\<And>x. same_but_weight (store s x) (store s1 x)"
      by (simp_all add: s1_def same_but_weight_def)
    from existing(3) have "UpdateBackends_loop parse configs s1 (new @ [a]) = (None, s')"
      by (simp add: s1_def)
    note ih = Cons.IH [OF this]
    have n: "nextAddr s \<le> nextAddr s'" using ih s1(1) by simp
    have w: "same_but_weight (store s x) (store s' x)" if "x < nextAddr s" for x
    proof -
      from ih that s1(1) have "same_but_weight (store s1 x) (store s' x)" by simp
      with s1(4) [of x] show ?thesis by (rule same_but_weight_trans)
    qed
    have o: "store s' x = store s x" if "x < nextAddr s" "x \<notin> set (backends s)" for x
    proof -
      from that a have "x \<noteq> a" by auto
      moreover from ih that s1(1,2) have "store s' x = store s1 x" by simp
      ultimately show ?thesis using s1(3) by simp
    qed
    have g: "store s' x = store s x" if "x < nextAddr s"
        "\<forall>c \<in> set (cfg # configs). parse (cfgURL c) \<noteq> Some (URL (store s x))" for x
    proof -
      from that(2) existing(1) a have ne: "x \<noteq> a" by auto
      then have e: "store s1 x = store s x" by (rule s1(3))
      with that(2) have "\<forall>c \<in> set configs. parse (cfgURL c) \<noteq> Some (URL (store s1 x))" by simp
      with ih that(1) s1(1) have "store s' x = store s1 x" by simp
      with e show ?thesis by simp
    qed
    from n w o g show ?thesis by blast
  next
    case (new u)
    define s1 where "s1 = s\<lparr>store := (store s)(nextAddr s := fresh_backend u (cfgWeight cfg)),
            nextAddr := Suc (nextAddr s)\<rparr>"
    have s1: "nextAddr s1 = Suc (nextAddr s)" "backends s1 = backends s"
      "\<And>x. x < nextAddr s \<Longrightarrow> store s1 x = store s x"
      by (simp_all add: s1_def)
    from new(3) have "UpdateBackends_loop parse configs s1 (new @ [nextAddr s]) = (None, s')"
      by (simp add: s1_def)
    note ih = Cons.IH [OF this]
    have n: "nextAddr s \<le> nextAddr s'" using ih s1(1) by simp
    have w: "same_but_weight (store s x) (store s' x)" if "x < nextAddr s" for x
    proof -
      from that s1(1) have "x < nextAddr s1" by simp
      with ih have "same_but_weight (store s1 x) (store s' x)" by blast
      with that s1(3) show ?thesis by simp
    qed
    have o: "store s' x = store s x" if "x < nextAddr s" "x \<notin> set (backends s)" for x
    proof -
      from that s1(1,2) have "x < nextAddr s1" "x \<notin> set (backends s1)" by simp_all
      with ih have "store s' x = store s1 x" by blast
      with that s1(3) show ?thesis by simp
    qed
    have g: "store s' x = store s x" if "x < nextAddr s"
        "\<forall>c \<in> set (cfg # configs). parse (cfgURL c) \<noteq> Some (URL (store s x))" for x
    proof -
      from that s1(1,3) have "x < nextAddr s1"
        "\<forall>c \<in> set configs. parse (cfgURL c) \<noteq> Some (URL (store s1 x))" by simp_all
      with ih have "store s' x = store s1 x" by blast
      with that s1(3) show ?thesis by simp
    qed
    from n w o g show ?thesis by blast
  qed
qed

lemma UpdateBackends_loop_elements:
  "allocated s \<Longrightarrow> UpdateBackends_loop parse configs s new = (None, s') \<Longrightarrow>
   i < length configs \<Longrightarrow> parse (cfgURL (configs ! i)) = Some u \<Longrightarrow>
   (case lookup_backend (store s) u (backends s) of
      Some a \<Rightarrow> backends s' ! (length new + i) = a
    | None \<Rightarrow> nextAddr s \<le> backends s' ! (length new + i)
         \<and> store s' (backends s' ! (length new + i)) = fresh_backend u (cfgWeight (configs ! i)))"
proof (induction configs arbitrary: s new i)
  case Nil
  then show ?case by simp
next
  case (Cons cfg configs)
  from Cons.prems(1) have al: "\<forall>x \<in> set (backends s). x < nextAddr s"
    by (simp add: allocated_def list_all_iff)
  from Cons.prems(2) show ?case
  proof (cases rule: UpdateBackends_loop_cases)
    case (existing v a)
    define s1 where "s1 = s\<lparr>store := (store s)(a := (store s a)\<lparr>Weight := cfgWeight cfg\<rparr>)\<rparr>"
    have s1: "nextAddr s1 = nextAddr s" "backends s1 = backends s"
      "\<And>x. URL (store s1 x) = URL (store s x)"
      by (simp_all add: s1_def)
    have al1: "allocated s1" using Cons.prems(1) by (simp add: allocated_def s1)
    have lk: "lookup_backend (store s1) u (backends s1) = lookup_backend (store s) u (backends s)"
      using s1 by (simp add: lookup_backend_cong)
    from existing(3) have run: "UpdateBackends_loop parse configs s1 (new @ [a]) = (None, s')"
      by (simp add: s1_def)
    show ?thesis
    proof (cases i)
      case 0
      with Cons.prems(4) existing(1) have "u = v" by simp
      with existing(2) UpdateBackends_loop_pushed [OF run] 0 show ?thesis by simp
    next
      case (Suc j)
      with Cons.prems have "j < length configs" "parse (cfgURL (configs ! j)) = Some u" by simp_all
      from Cons.IH [OF al1 run this] lk s1(1) Suc show ?thesis
        by (simp split: option.splits)
    qed
  next
    case (new v)
    define s1 where "s1 = s\<lparr>store := (store s)(nextAddr s := fresh_backend v (cfgWeight cfg)),
            nextAddr := Suc (nextAddr s)\<rparr>"
    have s1: "nextAddr s1 = Suc (nextAddr s)" "backends s1 = backends s"
      "\<And>x. x < nextAddr s \<Longrightarrow> store s1 x = store s x"
      "store s1 (nextAddr s) = fresh_backend v (cfgWeight cfg)"
      by (simp_all add: s1_def)
    have al1: "allocated s1" using al by (auto simp: allocated_def list_all_iff s1)
    have lk: "lookup_backend (store s1) u (backends s1) = lookup_backend (store s) u (backends s)"
      using s1 al by (simp add: lookup_backend_cong)
    from new(3) have run: "UpdateBackends_loop parse configs s1 (new @ [nextAddr s]) = (None, s')"
      by (simp add: s1_def)
    show ?thesis
    proof (cases i)
      case 0
      with Cons.prems(4) new(1) have uv: "u = v" by simp
      have p: "backends s' ! length new = nextAddr s" by (rule UpdateBackends_loop_pushed [OF run])
      have "nextAddr s \<notin> set (backends s1)" using al s1(2) by auto
      with UpdateBackends_loop_frame [OF run] s1(1)
      have "store s' (nextAddr s) = store s1 (nextAddr s)" by simp
      with p uv new(2) s1(4) 0 show ?thesis by simp
    next
      case (Suc j)
      with Cons.prems have "j < length configs" "parse (cfgURL (configs ! j)) = Some u" by simp_all
      from Cons.IH [OF al1 run this] lk s1(1) Suc show ?thesis
        by (auto split: option.splits)
    qed
  qed
qed

lemma UpdateBackends_loop_weights:
  "allocated s \<Longrightarrow> UpdateBackends_loop parse configs s new = (None, s') \<Longrightarrow>
   i < length configs \<Longrightarrow>
   (\<forall>j. i < j \<and> j < length configs \<longrightarrow> parse (cfgURL (configs ! j)) \<noteq> parse (cfgURL (configs ! i))) \<Longrightarrow>
   Weight (store s' (backends s' ! (length new + i))) = cfgWeight (configs ! i)"
proof (induction configs arbitrary: s new i)
  case Nil
  then show ?case by simp
next
  case (Cons cfg configs)
  from Cons.prems(1) have al: "\<forall>x \<in> set (backends s). x < nextAddr s"
    by (simp add: allocated_def list_all_iff)
  from Cons.prems(2) show ?case
  proof (cases rule: UpdateBackends_loop_cases)
    case (existing v a)
    define s1 where "s1 = s\<lparr>store := (store s)(a := (store s a)\<lparr>Weight := cfgWeight cfg\<rparr>)\<rparr>"
    from lookup_backend_Some [OF existing(2)] have a: "a \<in> set (backends s)" "URL (store s a) = v"
      by simp_all
    have s1: "nextAddr s1 = nextAddr s" "backends s1 = backends s"
      "URL (store s1 a) = v" "Weight (store s1 a) = cfgWeight cfg"
      using a by (simp_all add: s1_def)
    have al1: "allocated s1" using Cons.prems(1) by (simp add: allocated_def s1)
    from existing(3) have run: "UpdateBackends_loop parse configs s1 (new @ [a]) = (None, s')"
      by (simp add: s1_def)
    show ?thesis
    proof (cases i)
      case 0
      have "\<forall>c \<in> set configs. parse (cfgURL c) \<noteq> Some (URL (store s1 a))"
      proof
        fix c assume "c \<in> set configs"
        then obtain j where "j < length configs" "configs ! j = c" by (auto simp: in_set_conv_nth)
        with Cons.prems(4) [rule_format, of "Suc j"] 0 existing(1) s1(3)
        show "parse (cfgURL c) \<noteq> Some (URL (store s1 a))" by simp
      qed
      moreover from al a s1(1) have "a < nextAddr s1" by simp
      ultimately have "store s' a = store s1 a" using UpdateBackends_loop_frame [OF run] by blast
      with UpdateBackends_loop_pushed [OF run] s1(4) 0 show ?thesis by simp
    next
      case (Suc j)
      with Cons.prems have "j < length configs"
        "\<forall>k. j < k \<and> k < length configs \<longrightarrow> parse (cfgURL (configs ! k)) \<noteq> parse (cfgURL (configs ! j))"
        by auto
      from Cons.IH [OF al1 run this] Suc show ?thesis by simp
    qed
  next
    case (new v)
    define s1 where "s1 = s\<lparr>store := (store s)(nextAddr s := fresh_backend v (cfgWeight cfg)),
            nextAddr := Suc (nextAddr s)\<rparr>"
    have s1: "nextAddr s1 = Suc (nextAddr s)" "backends s1 = backends s"
      "store s1 (nextAddr s) = fresh_backend v (cfgWeight cfg)"
      by (simp_all add: s1_def)
    have al1: "allocated s1" using al by (auto simp: allocated_def list_all_iff s1)
    from new(3) have run: "UpdateBackends_loop parse configs s1 (new @ [nextAddr s]) = (None, s')"
      by (simp add: s1_def)
    show ?thesis
    proof (cases i)
      case 0
      have "nextAddr s \<notin> set (backends s1)" using al s1(2) by auto
      with UpdateBackends_loop_frame [OF run] s1(1)
      have "store s' (nextAddr s) = store s1 (nextAddr s)" by simp
      with UpdateBackends_loop_pushed [OF run] s1(3) 0 show ?thesis
        by (simp add: fresh_backend_def)
    next
      case (Suc j)
      with Cons.prems have "j < length configs"
        "\<forall>k. j < k \<and> k < length configs \<longrightarrow> parse (cfgURL (configs ! k)) \<noteq> parse (cfgURL (configs ! j))"
        by auto
      from Cons.IH [OF al1 run this] Suc show ?thesis by simp
    qed
  qed
qed

text \<open>
  C9, as the spec words it, fails for the weight of a preserved backend: \<open>UpdateBackends\<close>
  with a config that lists \<open>http://b1\<close> at weight 5 keeps the pool's first backend with
  that URL, whose weight was 1, and leaves it with weight 5.
\<close>

theorem UpdateBackends_weight_counterexample:
  "lookup_backend (store twin_pool) ''http://b1'' (backends twin_pool) = Some 1
   \<and> Weight (store twin_pool 1) = 1
   \<and> fst (UpdateBackends Some twin_pool two_configs) = None
   \<and> backends (snd (UpdateBackends Some twin_pool two_configs)) ! 0 = 1
   \<and> Weight (store (snd (UpdateBackends Some twin_pool two_configs)) 1) = 5"
proof -
  have b: "backends twin_pool = [0, 1, 2]"
    by (simp add: twin_pool_def pool_of_def upt_rec)
  have st: "URL (store twin_pool 0) = ''http://b0''" "URL (store twin_pool (Suc 0)) = ''http://b1''"
    "URL (store twin_pool 2) = ''http://b1''" "Weight (store twin_pool (Suc 0)) = 1"
    "nextAddr twin_pool = 3"
    by (simp_all add: twin_pool_def pool_of_def backend_of_def)
  show ?thesis
    by (simp add: UpdateBackends_def two_configs_def b st)
qed

text \<open>
  C9, amended. When \<open>UpdateBackends\<close> succeeds, which it does exactly when every configured
  URL parses, the new backend list follows the config list entry by entry. For a
  configured URL already present in the pool the entry is the same backend object, the
  first of the pool with that URL, with its connection count, alive flag, current weight
  and connection limit unchanged; only its \<open>Weight\<close> is overwritten, by the configured
  weight of the last config entry with that URL. For a configured URL not present the
  entry is a newly allocated backend, alive, with the configured weight and a zero count.
  The URLs of the new list are exactly the configured ones, so URLs absent from the
  config are dropped.
\<close>

theorem UpdateBackends_diff_by_url:
  "allocated s \<Longrightarrow> UpdateBackends parse s configs = (None, s') \<Longrightarrow>
   (\<forall>cfg \<in> set configs. parse (cfgURL cfg) \<noteq> None)
   \<and> length (backends s') = length configs
   \<and> (\<forall>i < length configs. \<forall>u. parse (cfgURL (configs ! i)) = Some u \<longrightarrow>
        (case lookup_backend (store s) u (backends s) of
           Some a \<Rightarrow> backends s' ! i = a \<and> same_but_weight (store s a) (store s' a)
         | None \<Rightarrow> nextAddr s \<le> backends s' ! i
              \<and> store s' (backends s' ! i) = fresh_backend u (cfgWeight (configs ! i))))
   \<and> (\<forall>i < length configs.
        (\<forall>j. i < j \<and> j < length configs \<longrightarrow>
              parse (cfgURL (configs ! j)) \<noteq> parse (cfgURL (configs ! i))) \<longrightarrow>
        Weight (store s' (backends s' ! i)) = cfgWeight (configs ! i))
   \<and> map (\<lambda>a. Some (URL (store s' a))) (backends s') = map (\<lambda>cfg. parse (cfgURL cfg)) configs"
proof -
  assume al: "allocated s" and "UpdateBackends parse s configs = (None, s')"
  then have run: "UpdateBackends_loop parse configs s [] = (None, s')"
    by (simp add: UpdateBackends_def)
  have ok: "\<forall>cfg \<in> set configs. parse (cfgURL cfg) \<noteq> None"
    using UpdateBackends_loop_ok [of parse configs s "[]"] run by simp
  have len: "length (backends s') = length configs"
    using UpdateBackends_loop_shape [OF run] by simp
  have el: "case lookup_backend (store s) u (backends s) of
           Some a \<Rightarrow> backends s' ! i = a \<and> same_but_weight (store s a) (store s' a)
         | None \<Rightarrow> nextAddr s \<le> backends s' ! i
              \<and> store s' (backends s' ! i) = fresh_backend u (cfgWeight (configs ! i))"
    if "i < length configs" "parse (cfgURL (configs ! i)) = Some u" for i u
  proof (cases "lookup_backend (store s) u (backends s)")
    case None
    with UpdateBackends_loop_elements [OF al run that] show ?thesis by simp
  next
    case (Some a)
    from lookup_backend_Some [OF this] al have "a < nextAddr s"
      by (simp add: allocated_def list_all_iff)
    with UpdateBackends_loop_frame [OF run] have "same_but_weight (store s a) (store s' a)" by blast
    with UpdateBackends_loop_elements [OF al run that] Some show ?thesis by simp
  qed
  have wt: "Weight (store s' (backends s' ! i)) = cfgWeight (configs ! i)"
    if "i < length configs"
       "\<forall>j. i < j \<and> j < length configs \<longrightarrow> parse (cfgURL (configs ! j)) \<noteq> parse (cfgURL (configs ! i))"
    for i
    using UpdateBackends_loop_weights [OF al run that] by simp
  have urls: "map (\<lambda>a. Some (URL (store s' a))) (backends s') = map (\<lambda>cfg. parse (cfgURL cfg)) configs"
  proof (rule nth_equalityI)
    show "length (map (\<lambda>a. Some (URL (store s' a))) (backends s'))
        = length (map (\<lambda>cfg. parse (cfgURL cfg)) configs)" using len by simp
  next
    fix i assume "i < length (map (\<lambda>a. Some (URL (store s' a))) (backends s'))"
    with len have i: "i < length configs" by simp
    then have "configs ! i \<in> set configs" by simp
    with ok have "parse (cfgURL (configs ! i)) \<noteq> None" by blast
    then obtain u where u: "parse (cfgURL (configs ! i)) = Some u" by auto
    have "URL (store s' (backends s' ! i)) = u"
    proof (cases "lookup_backend (store s) u (backends s)")
      case None
      with el [OF i u] show ?thesis by (simp add: fresh_backend_def)
    next
      case (Some a)
      with el [OF i u] have "backends s' ! i = a" "same_but_weight (store s a) (store s' a)"
        by simp_all
      moreover from this(2) have "URL (store s' a) = URL (store s a)"
        by (rule same_but_weight_fields)
      ultimately show ?thesis using lookup_backend_Some [OF Some] by simp
    qed
    with i len u show "map (\<lambda>a. Some (URL (store s' a))) (backends s') ! i
        = map (\<lambda>cfg. parse (cfgURL cfg)) configs ! i" by simp
  qed
  from ok len el wt urls show ?thesis by blast
qed

theorem UpdateBackends_diff_by_url_witness:
  "allocated twin_pool
   \<and> fst (UpdateBackends Some twin_pool two_configs) = None
   \<and> backends (snd (UpdateBackends Some twin_pool two_configs)) = [1, 3]
   \<and> same_but_weight (store twin_pool 1)
        (store (snd (UpdateBackends Some twin_pool two_configs)) 1)
   \<and> Weight (store (snd (UpdateBackends Some twin_pool two_configs)) 1) = 5
   \<and> store (snd (UpdateBackends Some twin_pool two_configs)) 3 = fresh_backend ''http://b7'' 3"
proof -
  have b: "backends twin_pool = [0, 1, 2]"
    by (simp add: twin_pool_def pool_of_def upt_rec)
  have st: "URL (store twin_pool 0) = ''http://b0''" "URL (store twin_pool (Suc 0)) = ''http://b1''"
    "URL (store twin_pool 2) = ''http://b1''" "nextAddr twin_pool = 3"
    by (simp_all add: twin_pool_def pool_of_def backend_of_def)
  have al: "allocated twin_pool" by (simp add: allocated_def b st)
  have r: "UpdateBackends Some twin_pool two_configs =
      (None, twin_pool\<lparr>store := (store twin_pool)
                 (1 := (store twin_pool 1)\<lparr>Weight := 5\<rparr>, 3 := fresh_backend ''http://b7'' 3),
               nextAddr := 4, backends := [1, 3]\<rparr>)"
    by (simp add: UpdateBackends_def two_configs_def b st fresh_backend_def)
  from UpdateBackends_diff_by_url [OF al r] al show ?thesis
    by (simp add: r same_but_weight_def)
qed

section \<open>The admin handler\<close>

text \<open>
  C10. In \<open>handleBackends\<close>, a request that names a service that is found and whose
  \<open>path\<close> parameter is not empty and is the path of one of the service's locations is
  answered 404 \<open>Location not found\<close>, whatever its method. The handler enters the GET,
  POST or DELETE case only when the \<open>path\<close> parameter is empty and the service found has
  exactly one location.
\<close>

theorem handleBackends_named_location_not_found:
  "(serviceName \<noteq> [] \<and> GetServiceByName serviceName = Some srvc \<and> serviceLocation \<noteq> []
      \<and> (\<exists>loc \<in> set (Locations srvc). Path loc = serviceLocation)
      \<longrightarrow> handleBackends GetServiceByName serviceName serviceLocation method
            = HttpError 404 ''Location not found'')
   \<and> (backend_operation (handleBackends GetServiceByName serviceName serviceLocation method)
      \<longrightarrow> serviceLocation = []
          \<and> (\<exists>found. GetServiceByName serviceName = Some found \<and> length (Locations found) = 1))"
proof -
  have named: "serviceName \<noteq> [] \<and> GetServiceByName serviceName = Some srvc \<and> serviceLocation \<noteq> []
      \<and> (\<exists>loc \<in> set (Locations srvc). Path loc = serviceLocation)
      \<longrightarrow> handleBackends GetServiceByName serviceName serviceLocation method
            = HttpError 404 ''Location not found''"
    by (simp add: handleBackends_def)
  have reach: "backend_operation (handleBackends GetServiceByName serviceName serviceLocation method)
      \<longrightarrow> serviceLocation = []
          \<and> (\<exists>found. GetServiceByName serviceName = Some found \<and> length (Locations found) = 1)"
    by (simp add: handleBackends_def Let_def split: option.split)
  from named reach show ?thesis by blast
qed

theorem handleBackends_named_location_not_found_witness:
  "one_service ''backend-api'' = Some api_service
   \<and> Path (hd (Locations api_service)) = ''/api/''
   \<and> handleBackends one_service ''backend-api'' ''/api/'' ''GET''
       = HttpError 404 ''Location not found''
   \<and> backend_operation (handleBackends one_service ''backend-api'' [] ''GET'')
   \<and> length (Locations api_service) = 1"
proof -
  have s: "one_service ''backend-api'' = Some api_service" by (simp add: one_service_def)
  have l: "Locations api_service = [\<lparr>Path = ''/api/'', LocationPool = 0\<rparr>]"
    by (simp add: api_service_def)
  have op: "backend_operation (handleBackends one_service ''backend-api'' [] ''GET'')"
    by (simp add: handleBackends_def s l method_switch_def)
  from handleBackends_named_location_not_found
         [of "''backend-api''" one_service api_service "''/api/''" "''GET''"]
       handleBackends_named_location_not_found
         [of "''backend-api''" one_service api_service "[]" "''GET''"]
       s l op
  show ?thesis by simp
qed

end
